theory Spec2Isabelle
  imports Complex_Main
begin

unbundle bit_operations_syntax

section \<open>The QR code scanner node (qrcode\_python.py)\<close>

text \<open>
  The node \<^verbatim>\<open>QRCodeScanner\<close> is driven by a timer that calls \<^verbatim>\<open>process_frame\<close>.
  The fields of \<^verbatim>\<open>self\<close> that the node mutates or reads in its decisions are the record
  \<open>scanner\<close>. What lies outside the object (the CSV file, the logger, the browser
  threads that were started, the number of frames requested from the camera) is the
  record \<open>world\<close>. Everything the code reads from its surroundings during a call (the
  clock, the outcome of a file operation, the frame and what the decoder finds in it, the
  key pressed) is an explicit argument.

  Python's \<^verbatim>\<open>float\<close> timestamps are modelled as real numbers and Python's unbounded
  integers as \<open>int\<close>. A payload is a \<open>string\<close>: the bytes of its UTF-8 encoding, on
  which equality and the test for a URL prefix agree with Python's \<^verbatim>\<open>str\<close>.
\<close>

subsection \<open>Data\<close>

type_synonym payload = string

type_synonym csv_row = "string list"

datatype py_error = ZeroDivisionError | OSError

datatype log_event =
    LogDecoded string payload
  | LogCsvFailed
  | LogTooFrequent
  | LogNonUrl
  | LogFrameReadFailed
  | LogUndecodable
  | LogDecodeException
  | LogQuit
  | LogNodeDestroyed
  | LogScreenshotSaved
  | LogScreenshotFailed
  | LogConfig

record scanner =
  show_gui :: bool
  skip_frames :: int
  open_interval :: real
  last_decoded_data :: "payload option"
  last_open_time :: real
  frame_count :: int
  fps :: int
  start_time :: real
  decoded_data :: "payload list"
  frame_counter :: int

record world =
  csv_file :: "csv_row list option"
  logged :: "log_event list"
  browser_threads :: "payload list"
  frames_read :: nat

text \<open>
  \<open>csv_file\<close> is the content of \<^verbatim>\<open>scan_history.csv\<close> as a list of rows, \<open>None\<close> when
  the file does not exist. \<open>browser_threads\<close> lists the URL of every thread started by
  \<^verbatim>\<open>threading.Thread(target=self.open_browser_thread, ...).start()\<close>, in order.
  \<open>frames_read\<close> counts the calls of \<^verbatim>\<open>self.cap.read()\<close>.
\<close>

text \<open>The state after \<^verbatim>\<open>__init__\<close> (lines 35 to 41), for the three parameters and the clock.\<close>

definition initial_scanner :: "bool \<Rightarrow> int \<Rightarrow> real \<Rightarrow> real \<Rightarrow> scanner" where
  "initial_scanner gui skip interval t0 =
     \<lparr>show_gui = gui, skip_frames = skip, open_interval = interval,
      last_decoded_data = None, last_open_time = 0, frame_count = 0, fps = 0,
      start_time = t0, decoded_data = [], frame_counter = 0\<rparr>"

subsection \<open>is\_url (line 64)\<close>

text \<open>\<^verbatim>\<open>re.match(r'^https?://', string) is not None\<close>\<close>

definition is_url :: "string \<Rightarrow> bool" where
  "is_url string = (take 7 string = ''http://'' \<or> take 8 string = ''https://'')"

subsection \<open>save\_to\_csv (lines 68 to 77)\<close>

text \<open>
  Where a file operation of the body raises is decided outside the program; the
  argument \<open>csv_fault\<close> names the first operation that raises, if it is reached. Rows are
  written whole: an operation that raises leaves nothing of its own row in the file.
\<close>

datatype csv_fault = NoFault | ExistsFails | OpenFails | HeaderWriteFails | RowWriteFails

record csv_env =
  csv_fault :: csv_fault
  csv_stamp :: string

definition header_row :: csv_row where
  "header_row =
     [[CHR 0xE6, CHR 0x97, CHR 0xB6, CHR 0xE9, CHR 0x97, CHR 0xB4],
      [CHR 0xE4, CHR 0xBA, CHR 0x8C, CHR 0xE7, CHR 0xBB, CHR 0xB4, CHR 0xE7, CHR 0xA0,
       CHR 0x81, CHR 0xE5, CHR 0x86, CHR 0x85, CHR 0xE5, CHR 0xAE, CHR 0xB9]]"

text \<open>
  The body of the \<^verbatim>\<open>try\<close>: the file afterwards and whether an exception left the
  body. Opening in mode \<^verbatim>\<open>'a'\<close> creates a missing file and keeps the rows of an
  existing one.
\<close>

definition save_to_csv_try ::
  "'a csv_env_scheme \<Rightarrow> payload \<Rightarrow> csv_row list option \<Rightarrow> csv_row list option \<times> bool"
where
  "save_to_csv_try e data f =
     (if csv_fault e = ExistsFails then (f, True)
      else
        let file_exists = (f \<noteq> None) in
        if csv_fault e = OpenFails then (f, True)
        else
          let rows = (case f of None \<Rightarrow> [] | Some rs \<Rightarrow> rs) in
          if \<not> file_exists then
            if csv_fault e = HeaderWriteFails then (Some rows, True)
            else if csv_fault e = RowWriteFails then (Some (rows @ [header_row]), True)
            else (Some (rows @ [header_row] @ [[csv_stamp e, data]]), False)
          else
            if csv_fault e = RowWriteFails then (Some rows, True)
            else (Some (rows @ [[csv_stamp e, data]]), False))"

text \<open>\<^verbatim>\<open>except Exception as e\<close>: the exception is logged and goes no further.\<close>

definition save_to_csv :: "'a csv_env_scheme \<Rightarrow> payload \<Rightarrow> world \<Rightarrow> world" where
  "save_to_csv e data w =
     (case save_to_csv_try e data (csv_file w) of
        (f, raised) \<Rightarrow>
          if raised then w\<lparr>csv_file := f, logged := logged w @ [LogCsvFailed]\<rparr>
          else w\<lparr>csv_file := f\<rparr>)"

subsection \<open>handle\_qr\_data (lines 97 to 115)\<close>

text \<open>
  \<open>log_stamp\<close> is the result of \<^verbatim>\<open>time.strftime\<close> on line 100, \<open>now\<close> the result of
  \<^verbatim>\<open>time.time()\<close> on line 104. The comparison \<^verbatim>\<open>QR_data != self.last_decoded_data\<close> is
  true when the field is \<^verbatim>\<open>None\<close>. The calls of the logger and the start of the thread are
  taken to return; what the thread does later (\<^verbatim>\<open>open_browser_thread\<close>) is outside the call.
\<close>

record handle_env = csv_env +
  log_stamp :: string
  now :: real

definition handle_qr_data ::
  "handle_env \<Rightarrow> payload \<Rightarrow> scanner \<times> world \<Rightarrow> payload option \<times> scanner \<times> world"
where
  "handle_qr_data e QR_data sw =
     (case sw of (s, w) \<Rightarrow>
        if Some QR_data \<noteq> last_decoded_data s \<and> QR_data \<notin> set (decoded_data s) then
          let s1 = s\<lparr>decoded_data := decoded_data s @ [QR_data]\<rparr>;
              w1 = w\<lparr>logged := logged w @ [LogDecoded (log_stamp e) QR_data]\<rparr>;
              w2 = save_to_csv e QR_data w1
          in
            if is_url QR_data then
              let current_time = now e in
              if current_time - last_open_time s1 > open_interval s1 then
                (Some QR_data,
                 s1\<lparr>last_open_time := current_time\<rparr>,
                 w2\<lparr>browser_threads := browser_threads w2 @ [QR_data]\<rparr>)
              else (Some QR_data, s1, w2\<lparr>logged := logged w2 @ [LogTooFrequent]\<rparr>)
            else (Some QR_data, s1, w2\<lparr>logged := logged w2 @ [LogNonUrl]\<rparr>)
        else (last_decoded_data s, s, w))"

text \<open>Line 157: \<^verbatim>\<open>self.last_decoded_data = self.handle_qr_data(QR_data)\<close>.\<close>

definition accept_payload :: "handle_env \<Rightarrow> payload \<Rightarrow> scanner \<times> world \<Rightarrow> scanner \<times> world" where
  "accept_payload e QR_data sw =
     (case handle_qr_data e QR_data sw of
        (r, s', w') \<Rightarrow> (s'\<lparr>last_decoded_data := r\<rparr>, w'))"

subsection \<open>process\_frame (lines 124 to 188)\<close>

text \<open>
  One region found by \<^verbatim>\<open>decode(frame)\<close>: the outcome of \<^verbatim>\<open>QR.data.decode('utf-8')\<close> and
  what the handling of the payload reads from its surroundings.
\<close>

datatype decode_outcome = Text payload | UnicodeDecodeError | OtherException

record region_in =
  region_data :: decode_outcome
  region_env :: handle_env

text \<open>
  One tick: \<open>capture\<close> is \<open>None\<close> when \<^verbatim>\<open>self.cap.read()\<close> fails and otherwise the
  regions the decoder finds in the frame; \<open>clock_elapsed\<close> and \<open>clock_restart\<close> are the
  two readings of \<^verbatim>\<open>time.time()\<close> on lines 137 and 141; \<open>wait_key\<close> is the result of
  \<^verbatim>\<open>cv2.waitKey(1)\<close>; \<open>mkdir_raises\<close> says whether the \<^verbatim>\<open>mkdir\<close> of
  \<^verbatim>\<open>get_daily_screenshot_dir\<close> raises; \<open>imwrite_raises\<close> says whether \<^verbatim>\<open>cv2.imwrite\<close>
  raises. The calls into OpenCV, the decoder, the logger and rclpy are taken to return.
\<close>

record tick_in =
  capture :: "region_in list option"
  clock_elapsed :: real
  clock_restart :: real
  wait_key :: int
  mkdir_raises :: bool
  imwrite_raises :: bool

text \<open>Lines 126 to 127: the counter of the frame throttle. \<^verbatim>\<open>%\<close> by zero raises.\<close>

definition advance_counter :: "scanner \<Rightarrow> py_error + scanner" where
  "advance_counter s =
     (if skip_frames s + 1 = 0 then Inl ZeroDivisionError
      else Inr (s\<lparr>frame_counter := (frame_counter s + 1) mod (skip_frames s + 1)\<rparr>))"

text \<open>Lines 136 to 141: the frame rate, refreshed once a second.\<close>

definition update_fps :: "tick_in \<Rightarrow> scanner \<Rightarrow> scanner" where
  "update_fps t s =
     (let s1 = s\<lparr>frame_count := frame_count s + 1\<rparr>;
          elapsed = clock_elapsed t - start_time s1
      in if elapsed \<ge> 1.0
         then s1\<lparr>fps := frame_count s1, frame_count := 0, start_time := clock_restart t\<rparr>
         else s1)"

text \<open>
  Lines 146 to 159, the body of the loop over the regions. Drawing on the frame
  (\<^verbatim>\<open>draw_qr_info\<close>) changes the image only and is left out.
\<close>

definition process_region :: "region_in \<Rightarrow> scanner \<times> world \<Rightarrow> scanner \<times> world" where
  "process_region r sw =
     (case region_data r of
        UnicodeDecodeError \<Rightarrow> (fst sw, (snd sw)\<lparr>logged := logged (snd sw) @ [LogUndecodable]\<rparr>)
      | OtherException \<Rightarrow> (fst sw, (snd sw)\<lparr>logged := logged (snd sw) @ [LogDecodeException]\<rparr>)
      | Text QR_data \<Rightarrow> accept_payload (region_env r) QR_data sw)"

fun process_regions :: "region_in list \<Rightarrow> scanner \<times> world \<Rightarrow> scanner \<times> world" where
  "process_regions [] sw = sw"
| "process_regions (r # rs) sw = process_regions rs (process_region r sw)"

text \<open>
  Lines 162 to 188: the window and the keys. Only the log is written; \<^verbatim>\<open>destroy_node\<close>
  releases the camera and logs. On the key \<^verbatim>\<open>s\<close>, line 178 creates the directory of the
  day before the \<^verbatim>\<open>try\<close> of line 180: an exception of its \<^verbatim>\<open>mkdir\<close> is not caught and
  leaves \<^verbatim>\<open>process_frame\<close>, while an exception of \<^verbatim>\<open>cv2.imwrite\<close> is caught and logged.
\<close>

definition handle_key :: "tick_in \<Rightarrow> scanner \<Rightarrow> world \<Rightarrow> py_error + world" where
  "handle_key t s w =
     (if show_gui s then
        let key = wait_key t AND 0xFF in
        if key = 113 then Inr (w\<lparr>logged := logged w @ [LogQuit, LogNodeDestroyed]\<rparr>)
        else if key = 115 then
          (if mkdir_raises t then Inl OSError
           else if imwrite_raises t then Inr (w\<lparr>logged := logged w @ [LogScreenshotFailed]\<rparr>)
           else Inr (w\<lparr>logged := logged w @ [LogScreenshotSaved]\<rparr>))
        else if key = 100 then Inr (w\<lparr>logged := logged w @ [LogConfig, LogConfig]\<rparr>)
        else Inr w
      else Inr w)"

text \<open>
  A tick returns (\<open>Inr\<close>, with the state it leaves) or raises (\<open>Inl\<close>, with the exception
  and the state reached when it was raised).
\<close>

definition process_frame ::
  "tick_in \<Rightarrow> scanner \<times> world \<Rightarrow> (py_error \<times> scanner \<times> world) + scanner \<times> world"
where
  "process_frame t sw =
     (case advance_counter (fst sw) of
        Inl err \<Rightarrow> Inl (err, sw)
      | Inr s1 \<Rightarrow>
          (if frame_counter s1 \<noteq> 0 then Inr (s1, snd sw)
           else
             (let w1 = (snd sw)\<lparr>frames_read := frames_read (snd sw) + 1\<rparr> in
              (case capture t of
                 None \<Rightarrow> Inr (s1, w1\<lparr>logged := logged w1 @ [LogFrameReadFailed]\<rparr>)
               | Some QR_codes \<Rightarrow>
                   (let sw2 = process_regions QR_codes (update_fps t s1, w1)
                    in (case handle_key t (fst sw2) (snd sw2) of
                          Inl err \<Rightarrow> Inl (err, sw2)
                        | Inr w3 \<Rightarrow> Inr (fst sw2, w3)))))))"

text \<open>The state in which a tick ends, by return or by raise.\<close>

definition tick_end ::
  "(py_error \<times> scanner \<times> world) + scanner \<times> world \<Rightarrow> scanner \<times> world"
where
  "tick_end r = (case r of Inl raised \<Rightarrow> snd raised | Inr sw \<Rightarrow> sw)"

subsection \<open>Runs\<close>

text \<open>
  A run of the timer: the ticks in order. An exception of \<^verbatim>\<open>process_frame\<close> ends the
  run, in the state reached when it was raised: it leaves \<^verbatim>\<open>rclpy.spin\<close> and \<^verbatim>\<open>main\<close>
  shuts the node down.
\<close>

fun run_ticks :: "tick_in list \<Rightarrow> scanner \<times> world \<Rightarrow> (scanner \<times> world) \<times> py_error option" where
  "run_ticks [] sw = (sw, None)"
| "run_ticks (t # ts) sw =
     (case process_frame t sw of
        Inl raised \<Rightarrow> (snd raised, Some (fst raised))
      | Inr sw' \<Rightarrow> run_ticks ts sw')"

text \<open>A sequence of payloads handled one after the other (line 157 for each).\<close>

fun run_payloads :: "(handle_env \<times> payload) list \<Rightarrow> scanner \<times> world \<Rightarrow> scanner \<times> world" where
  "run_payloads [] sw = sw"
| "run_payloads (ep # eps) sw = run_payloads eps (accept_payload (fst ep) (snd ep) sw)"

subsection \<open>What a call is observed to do\<close>

text \<open>
  \<^verbatim>\<open>handle_qr_data\<close> returns no flag. That it took a payload as new shows in its effect:
  the call appended to \<^verbatim>\<open>self.decoded_data\<close>. That it dispatched the side effect shows
  in a browser thread having been started.
\<close>

definition accepted_as_new :: "handle_env \<Rightarrow> payload \<Rightarrow> scanner \<times> world \<Rightarrow> bool" where
  "accepted_as_new e p sw =
     (decoded_data (fst (snd (handle_qr_data e p sw))) \<noteq> decoded_data (fst sw))"

definition dispatched :: "handle_env \<Rightarrow> payload \<Rightarrow> scanner \<times> world \<Rightarrow> bool" where
  "dispatched e p sw =
     (browser_threads (snd (snd (handle_qr_data e p sw))) \<noteq> browser_threads (snd sw))"

text \<open>The instants at which the payloads of a run had their side effect dispatched.\<close>

fun dispatch_times :: "(handle_env \<times> payload) list \<Rightarrow> scanner \<times> world \<Rightarrow> real list" where
  "dispatch_times [] sw = []"
| "dispatch_times (ep # eps) sw =
     (if dispatched (fst ep) (snd ep) sw then [now (fst ep)] else [])
     @ dispatch_times eps (accept_payload (fst ep) (snd ep) sw)"

subsection \<open>Concrete inputs\<close>

text \<open>
  The node with the default parameters of lines 19 to 22, started at time 0, a world
  without a history file, and the surroundings of one handled payload.
\<close>

definition scan_env :: "csv_fault \<Rightarrow> real \<Rightarrow> handle_env" where
  "scan_env f t =
     \<lparr>csv_fault = f, csv_stamp = ''2024-05-01 12:00:00'',
      log_stamp = ''2024-05-01 12:00:00'', now = t\<rparr>"

definition fresh_world :: world where
  "fresh_world = \<lparr>csv_file = None, logged = [], browser_threads = [], frames_read = 0\<rparr>"

definition default_scanner :: scanner where
  "default_scanner = initial_scanner False 2 5.0 0"

definition tick :: "region_in list option \<Rightarrow> tick_in" where
  "tick c =
     \<lparr>capture = c, clock_elapsed = 0.5, clock_restart = 0.5, wait_key = - 1,
      mkdir_raises = False, imwrite_raises = False\<rparr>"

section \<open>Properties\<close>

lemma save_to_csv_frame:
  "logged (save_to_csv e d w) = logged w @ (if snd (save_to_csv_try e d (csv_file w)) then [LogCsvFailed] else [])"
  "browser_threads (save_to_csv e d w) = browser_threads w"
  "frames_read (save_to_csv e d w) = frames_read w"
  "csv_file (save_to_csv e d w) = fst (save_to_csv_try e d (csv_file w))"
  by (simp_all add: save_to_csv_def split: prod.splits)

lemma accept_decoded_data:
  "decoded_data (fst (accept_payload e p (s, w))) =
     (if Some p \<noteq> last_decoded_data s \<and> p \<notin> set (decoded_data s)
      then decoded_data s @ [p] else decoded_data s)"
  by (simp add: accept_payload_def handle_qr_data_def Let_def)

lemma accept_last_decoded_data:
  "last_decoded_data (fst (accept_payload e p (s, w))) =
     (if Some p \<noteq> last_decoded_data s \<and> p \<notin> set (decoded_data s)
      then Some p else last_decoded_data s)"
  by (simp add: accept_payload_def handle_qr_data_def Let_def)

lemma accept_last_open_time:
  "last_open_time (fst (accept_payload e p (s, w))) =
     (if Some p \<noteq> last_decoded_data s \<and> p \<notin> set (decoded_data s) \<and> is_url p
         \<and> now e - last_open_time s > open_interval s
      then now e else last_open_time s)"
  by (simp add: accept_payload_def handle_qr_data_def Let_def)

lemma accept_browser_threads:
  "browser_threads (snd (accept_payload e p (s, w))) =
     (if Some p \<noteq> last_decoded_data s \<and> p \<notin> set (decoded_data s) \<and> is_url p
         \<and> now e - last_open_time s > open_interval s
      then browser_threads w @ [p] else browser_threads w)"
  by (simp add: accept_payload_def handle_qr_data_def Let_def save_to_csv_frame)

lemma accept_not_new:
  "\<not> (Some p \<noteq> last_decoded_data s \<and> p \<notin> set (decoded_data s)) \<Longrightarrow>
     accept_payload e p (s, w) = (s, w)"
  by (auto simp add: accept_payload_def handle_qr_data_def Let_def)

lemma accept_config:
  "show_gui (fst (accept_payload e p sw)) = show_gui (fst sw)"
  "skip_frames (fst (accept_payload e p sw)) = skip_frames (fst sw)"
  "open_interval (fst (accept_payload e p sw)) = open_interval (fst sw)"
  "frame_count (fst (accept_payload e p sw)) = frame_count (fst sw)"
  "fps (fst (accept_payload e p sw)) = fps (fst sw)"
  "start_time (fst (accept_payload e p sw)) = start_time (fst sw)"
  "frame_counter (fst (accept_payload e p sw)) = frame_counter (fst sw)"
  "frames_read (snd (accept_payload e p sw)) = frames_read (snd sw)"
  by (cases sw; simp add: accept_payload_def handle_qr_data_def Let_def save_to_csv_frame)+

lemma accepted_as_new_iff:
  "accepted_as_new e p (s, w) \<longleftrightarrow> Some p \<noteq> last_decoded_data s \<and> p \<notin> set (decoded_data s)"
  by (simp add: accepted_as_new_def handle_qr_data_def Let_def)


lemma process_region_dedup:
  assumes step: "\<And>e p s w. Q (last_decoded_data s) (decoded_data s) \<Longrightarrow>
            Q (last_decoded_data (fst (accept_payload e p (s, w))))
              (decoded_data (fst (accept_payload e p (s, w))))"
    and "Q (last_decoded_data (fst sw)) (decoded_data (fst sw))"
  shows "Q (last_decoded_data (fst (process_region r sw)))
           (decoded_data (fst (process_region r sw)))"
proof (cases "region_data r")
  case (Text p)
  with assms(2) step [of "fst sw" _ p "snd sw"] show ?thesis
    by (simp add: process_region_def)
qed (use assms(2) in \<open>simp_all add: process_region_def\<close>)

lemma process_regions_dedup:
  assumes step: "\<And>e p s w. Q (last_decoded_data s) (decoded_data s) \<Longrightarrow>
            Q (last_decoded_data (fst (accept_payload e p (s, w))))
              (decoded_data (fst (accept_payload e p (s, w))))"
    and "Q (last_decoded_data (fst sw)) (decoded_data (fst sw))"
  shows "Q (last_decoded_data (fst (process_regions rs sw)))
           (decoded_data (fst (process_regions rs sw)))"
  using assms(2)
proof (induction rs arbitrary: sw)
  case Nil
  then show ?case by simp
next
  case (Cons r rs)
  from process_region_dedup [of Q, OF step Cons.prems]
  have "Q (last_decoded_data (fst (process_region r sw)))
          (decoded_data (fst (process_region r sw)))" .
  from Cons.IH [OF this] show ?case by simp
qed

lemma update_fps_dedup:
  "last_decoded_data (update_fps t s) = last_decoded_data s"
  "decoded_data (update_fps t s) = decoded_data s"
  by (simp_all add: update_fps_def Let_def)

lemma process_frame_dedup:
  assumes step: "\<And>e p s w. Q (last_decoded_data s) (decoded_data s) \<Longrightarrow>
            Q (last_decoded_data (fst (accept_payload e p (s, w))))
              (decoded_data (fst (accept_payload e p (s, w))))"
    and start: "Q (last_decoded_data (fst sw)) (decoded_data (fst sw))"
  shows "Q (last_decoded_data (fst (tick_end (process_frame t sw))))
           (decoded_data (fst (tick_end (process_frame t sw))))"
proof (cases "advance_counter (fst sw)")
  case (Inl err)
  then have "tick_end (process_frame t sw) = sw"
    by (simp add: process_frame_def tick_end_def)
  with start show ?thesis by simp
next
  case (Inr s1)
  then have same: "last_decoded_data s1 = last_decoded_data (fst sw)"
      "decoded_data s1 = decoded_data (fst sw)"
    by (auto simp add: advance_counter_def split: if_splits)
  show ?thesis
  proof (cases "frame_counter s1 \<noteq> 0 \<or> capture t = None")
    case True
    with Inr have "fst (tick_end (process_frame t sw)) = s1"
      by (auto simp add: process_frame_def tick_end_def Let_def)
    with same start show ?thesis by simp
  next
    case False
    then obtain rs where rs: "capture t = Some rs" and zero: "frame_counter s1 = 0"
      by auto
    let ?w1 = "(snd sw)\<lparr>frames_read := frames_read (snd sw) + 1\<rparr>"
    from Inr rs zero
    have "fst (tick_end (process_frame t sw)) = fst (process_regions rs (update_fps t s1, ?w1))"
      by (cases "handle_key t (fst (process_regions rs (update_fps t s1, ?w1)))
                   (snd (process_regions rs (update_fps t s1, ?w1)))")
         (simp_all add: process_frame_def tick_end_def Let_def)
    moreover have "Q (last_decoded_data (fst (update_fps t s1, ?w1)))
                     (decoded_data (fst (update_fps t s1, ?w1)))"
      using start same by (simp add: update_fps_dedup)
    from process_regions_dedup [of Q, OF step this]
    have "Q (last_decoded_data (fst (process_regions rs (update_fps t s1, ?w1))))
            (decoded_data (fst (process_regions rs (update_fps t s1, ?w1))))" .
    ultimately show ?thesis by simp
  qed
qed

lemma run_ticks_dedup:
  assumes step: "\<And>e p s w. Q (last_decoded_data s) (decoded_data s) \<Longrightarrow>
            Q (last_decoded_data (fst (accept_payload e p (s, w))))
              (decoded_data (fst (accept_payload e p (s, w))))"
    and "Q (last_decoded_data (fst sw)) (decoded_data (fst sw))"
  shows "Q (last_decoded_data (fst (fst (run_ticks ts sw))))
           (decoded_data (fst (fst (run_ticks ts sw))))"
  using assms(2)
proof (induction ts arbitrary: sw)
  case Nil
  then show ?case by simp
next
  case (Cons t ts)
  from process_frame_dedup [of Q, OF step Cons.prems, of t]
  have after: "Q (last_decoded_data (fst (tick_end (process_frame t sw))))
                 (decoded_data (fst (tick_end (process_frame t sw))))" .
  show ?case
  proof (cases "process_frame t sw")
    case (Inl raised)
    with after show ?thesis by (simp add: tick_end_def)
  next
    case (Inr sw')
    with after have "Q (last_decoded_data (fst sw')) (decoded_data (fst sw'))"
      by (simp add: tick_end_def)
    from Cons.IH [OF this] Inr show ?thesis by simp
  qed
qed

lemma run_payloads_dedup:
  assumes step: "\<And>e p s w. Q (last_decoded_data s) (decoded_data s) \<Longrightarrow>
            Q (last_decoded_data (fst (accept_payload e p (s, w))))
              (decoded_data (fst (accept_payload e p (s, w))))"
    and "Q (last_decoded_data (fst sw)) (decoded_data (fst sw))"
  shows "Q (last_decoded_data (fst (run_payloads eps sw)))
           (decoded_data (fst (run_payloads eps sw)))"
  using assms(2)
proof (induction eps arbitrary: sw)
  case Nil
  then show ?case by simp
next
  case (Cons ep eps)
  from step [of "fst sw" "fst ep" "snd ep" "snd sw"] Cons.prems
  have "Q (last_decoded_data (fst (accept_payload (fst ep) (snd ep) sw)))
          (decoded_data (fst (accept_payload (fst ep) (snd ep) sw)))"
    by simp
  from Cons.IH [OF this] show ?case by simp
qed

lemma accept_keeps_member:
  "p \<in> set (decoded_data s) \<Longrightarrow> p \<in> set (decoded_data (fst (accept_payload e q (s, w))))"
  by (simp add: accept_decoded_data)

lemma accept_keeps_last_in_seen:
  "(\<forall>p. last_decoded_data s = Some p \<longrightarrow> p \<in> set (decoded_data s)) \<Longrightarrow>
   (\<forall>p. last_decoded_data (fst (accept_payload e q (s, w))) = Some p \<longrightarrow>
         p \<in> set (decoded_data (fst (accept_payload e q (s, w)))))"
  by (simp add: accept_decoded_data accept_last_decoded_data)

lemma accept_keeps_distinct:
  "distinct (decoded_data s) \<Longrightarrow> distinct (decoded_data (fst (accept_payload e q (s, w))))"
  by (simp add: accept_decoded_data)


lemma handle_result:
  "fst (handle_qr_data e p (s, w)) =
     (if Some p \<noteq> last_decoded_data s \<and> p \<notin> set (decoded_data s)
      then Some p else last_decoded_data s)"
  by (simp add: handle_qr_data_def Let_def)

lemma accept_logged_new:
  "Some p \<noteq> last_decoded_data s \<and> p \<notin> set (decoded_data s) \<Longrightarrow>
   take (Suc (length (logged w))) (logged (snd (accept_payload e p (s, w)))) =
     logged w @ [LogDecoded (log_stamp e) p]"
  by (simp add: accept_payload_def handle_qr_data_def Let_def save_to_csv_frame)

text \<open>
  Claim C1. For every payload and every state, the payload is taken as new exactly when
  it differs from \<^verbatim>\<open>last_decoded_data\<close> and is not in \<^verbatim>\<open>decoded_data\<close>. When new, it is
  appended to \<^verbatim>\<open>decoded_data\<close>, announced in the log, returned, and stored as
  \<^verbatim>\<open>last_decoded_data\<close> by line 157. When not new, nothing changes and the old
  \<^verbatim>\<open>last_decoded_data\<close> is returned.
\<close>

theorem filter_classifies_new:
  "(accepted_as_new e p (s, w) \<longleftrightarrow>
      Some p \<noteq> last_decoded_data s \<and> p \<notin> set (decoded_data s)) \<and>
   (accepted_as_new e p (s, w) \<longrightarrow>
      decoded_data (fst (accept_payload e p (s, w))) = decoded_data s @ [p] \<and>
      last_decoded_data (fst (accept_payload e p (s, w))) = Some p \<and>
      fst (handle_qr_data e p (s, w)) = Some p \<and>
      take (Suc (length (logged w))) (logged (snd (accept_payload e p (s, w)))) =
        logged w @ [LogDecoded (log_stamp e) p]) \<and>
   (\<not> accepted_as_new e p (s, w) \<longrightarrow>
      accept_payload e p (s, w) = (s, w) \<and>
      fst (handle_qr_data e p (s, w)) = last_decoded_data s)"
proof -
  have iff: "accepted_as_new e p (s, w) \<longleftrightarrow>
      Some p \<noteq> last_decoded_data s \<and> p \<notin> set (decoded_data s)"
    by (rule accepted_as_new_iff)
  have new: "decoded_data (fst (accept_payload e p (s, w))) = decoded_data s @ [p] \<and>
      last_decoded_data (fst (accept_payload e p (s, w))) = Some p \<and>
      fst (handle_qr_data e p (s, w)) = Some p \<and>
      take (Suc (length (logged w))) (logged (snd (accept_payload e p (s, w)))) =
        logged w @ [LogDecoded (log_stamp e) p]"
    if "accepted_as_new e p (s, w)"
  proof -
    from that iff have c: "Some p \<noteq> last_decoded_data s \<and> p \<notin> set (decoded_data s)"
      by simp
    then show ?thesis
      using accept_logged_new [OF c, of w e]
      by (simp add: accept_decoded_data accept_last_decoded_data handle_result)
  qed
  have old: "accept_payload e p (s, w) = (s, w) \<and>
      fst (handle_qr_data e p (s, w)) = last_decoded_data s"
    if "\<not> accepted_as_new e p (s, w)"
  proof -
    from that iff have c: "\<not> (Some p \<noteq> last_decoded_data s \<and> p \<notin> set (decoded_data s))"
      by simp
    from accept_not_new [OF c] c show ?thesis
      by (simp add: handle_result)
  qed
  from iff new old show ?thesis by blast
qed

lemma dispatched_iff:
  "dispatched e p (s, w) \<longleftrightarrow>
     Some p \<noteq> last_decoded_data s \<and> p \<notin> set (decoded_data s) \<and> is_url p
       \<and> now e - last_open_time s > open_interval s"
  by (simp add: dispatched_def handle_qr_data_def Let_def save_to_csv_frame)

lemma handle_last_open_time:
  "last_open_time (fst (snd (handle_qr_data e p (s, w)))) =
     (if dispatched e p (s, w) then now e else last_open_time s)"
  by (simp add: dispatched_iff) (simp add: handle_qr_data_def Let_def)

lemma handle_browser_threads:
  "browser_threads (snd (snd (handle_qr_data e p (s, w)))) =
     (if dispatched e p (s, w) then browser_threads w @ [p] else browser_threads w)"
  by (simp add: dispatched_iff) (simp add: handle_qr_data_def Let_def save_to_csv_frame)

lemmas run_defs = accepted_as_new_def dispatched_def accept_payload_def handle_qr_data_def
  save_to_csv_def save_to_csv_try_def scan_env_def fresh_world_def default_scanner_def
  initial_scanner_def is_url_def Let_def

text \<open>The payload \<open>hello world\<close> is new in the initial state and not new right after.\<close>

theorem filter_classifies_new_witness:
  "accepted_as_new (scan_env NoFault 10) ''hello world'' (default_scanner, fresh_world) \<and>
   last_decoded_data
     (fst (accept_payload (scan_env NoFault 10) ''hello world'' (default_scanner, fresh_world)))
     = Some ''hello world'' \<and>
   \<not> accepted_as_new (scan_env NoFault 11) ''hello world''
     (accept_payload (scan_env NoFault 10) ''hello world'' (default_scanner, fresh_world)) \<and>
   accept_payload (scan_env NoFault 11) ''hello world''
     (accept_payload (scan_env NoFault 10) ''hello world'' (default_scanner, fresh_world))
   = accept_payload (scan_env NoFault 10) ''hello world'' (default_scanner, fresh_world)"
proof -
  have a: "accepted_as_new (scan_env NoFault 10) ''hello world'' (default_scanner, fresh_world)"
    by (simp add: run_defs)
  obtain s1 w1 where sw1:
    "accept_payload (scan_env NoFault 10) ''hello world'' (default_scanner, fresh_world) = (s1, w1)"
    by (cases "accept_payload (scan_env NoFault 10) ''hello world'' (default_scanner, fresh_world)")
  have b: "\<not> accepted_as_new (scan_env NoFault 11) ''hello world'' (s1, w1)"
    unfolding sw1 [symmetric] by (simp add: run_defs)
  from a b sw1
    filter_classifies_new [of "scan_env NoFault 10" "''hello world''" default_scanner fresh_world]
    filter_classifies_new [of "scan_env NoFault 11" "''hello world''" s1 w1]
  show ?thesis by simp
qed


lemma seen_never_new:
  assumes "p \<in> set (decoded_data (fst sw))"
  shows "\<not> accepted_as_new e' p (run_payloads eps sw) \<and>
         \<not> accepted_as_new e' p (fst (run_ticks ts sw))"
proof -
  from assms have
    "(\<lambda>l d. p \<in> set d) (last_decoded_data (fst sw)) (decoded_data (fst sw))" .
  from run_payloads_dedup [of "\<lambda>l d. p \<in> set d", OF accept_keeps_member this, of eps]
       run_ticks_dedup [of "\<lambda>l d. p \<in> set d", OF accept_keeps_member this, of ts]
  have "p \<in> set (decoded_data (fst (run_payloads eps sw)))"
    and "p \<in> set (decoded_data (fst (fst (run_ticks ts sw))))"
    by simp_all
  then show ?thesis
    using accepted_as_new_iff [of e' p "fst (run_payloads eps sw)" "snd (run_payloads eps sw)"]
          accepted_as_new_iff [of e' p "fst (fst (run_ticks ts sw))"
            "snd (fst (run_ticks ts sw))"]
    by simp
qed

text \<open>
  Claim C2. Once a payload has been accepted as new, no later call accepts it again,
  whatever payloads are handled in between and whatever ticks run in between: the
  history only grows and membership blocks the acceptance.
\<close>

theorem accepted_once:
  assumes "accepted_as_new e p sw"
  shows "\<not> accepted_as_new e' p (run_payloads eps (accept_payload e p sw)) \<and>
         \<not> accepted_as_new e' p (fst (run_ticks ts (accept_payload e p sw)))"
proof -
  obtain s w where sw: "sw = (s, w)" by (cases sw)
  from assms sw have "p \<in> set (decoded_data (fst (accept_payload e p sw)))"
    by (simp add: accepted_as_new_iff accept_decoded_data)
  then show ?thesis by (rule seen_never_new)
qed

text \<open>
  \<open>hello world\<close> is accepted, then another payload becomes the last one seen, then
  \<open>hello world\<close> comes back and is not accepted.
\<close>

theorem accepted_once_witness:
  "accepted_as_new (scan_env NoFault 10) ''hello world'' (default_scanner, fresh_world) \<and>
   last_decoded_data (fst (run_payloads [(scan_env NoFault 11, ''other'')]
     (accept_payload (scan_env NoFault 10) ''hello world'' (default_scanner, fresh_world))))
     = Some ''other'' \<and>
   \<not> accepted_as_new (scan_env NoFault 12) ''hello world''
     (run_payloads [(scan_env NoFault 11, ''other'')]
       (accept_payload (scan_env NoFault 10) ''hello world'' (default_scanner, fresh_world)))"
proof -
  have a: "accepted_as_new (scan_env NoFault 10) ''hello world'' (default_scanner, fresh_world)"
    by (simp add: run_defs)
  have b: "last_decoded_data (fst (run_payloads [(scan_env NoFault 11, ''other'')]
     (accept_payload (scan_env NoFault 10) ''hello world'' (default_scanner, fresh_world))))
     = Some ''other''"
    by (simp add: run_defs)
  from a b accepted_once [OF a, of "scan_env NoFault 12" "[(scan_env NoFault 11, ''other'')]" "[]"]
  show ?thesis by blast
qed

text \<open>
  Claim C8. In every state reached from the initial one, by any sequence of handled
  payloads and by any sequence of ticks, \<^verbatim>\<open>last_decoded_data\<close>, when it is not \<^verbatim>\<open>None\<close>,
  is an element of \<^verbatim>\<open>decoded_data\<close>.
\<close>

theorem last_seen_in_history:
  "(\<forall>p. last_decoded_data (fst (run_payloads eps (initial_scanner gui skip interval t0, w)))
          = Some p \<longrightarrow>
        p \<in> set (decoded_data (fst (run_payloads eps (initial_scanner gui skip interval t0, w)))))
   \<and>
   (\<forall>p. last_decoded_data (fst (fst (run_ticks ts (initial_scanner gui skip interval t0, w))))
          = Some p \<longrightarrow>
        p \<in> set (decoded_data
               (fst (fst (run_ticks ts (initial_scanner gui skip interval t0, w))))))"
proof -
  let ?Q = "\<lambda>l d. \<forall>p. l = Some p \<longrightarrow> p \<in> set d"
  let ?sw = "(initial_scanner gui skip interval t0, w)"
  have start: "?Q (last_decoded_data (fst ?sw)) (decoded_data (fst ?sw))"
    by (simp add: initial_scanner_def)
  have step: "\<And>e q s w. ?Q (last_decoded_data s) (decoded_data s) \<Longrightarrow>
      ?Q (last_decoded_data (fst (accept_payload e q (s, w))))
         (decoded_data (fst (accept_payload e q (s, w))))"
    by (rule accept_keeps_last_in_seen)
  from run_payloads_dedup [of ?Q, OF step start, of eps]
       run_ticks_dedup [of ?Q, OF step start, of ts]
  show ?thesis by blast
qed

theorem last_seen_in_history_witness:
  "last_decoded_data (fst (run_payloads
      [(scan_env NoFault 10, ''hello world''), (scan_env NoFault 11, ''other''),
       (scan_env NoFault 12, ''hello world'')] (default_scanner, fresh_world)))
     = Some ''other'' \<and>
   ''other'' \<in> set (decoded_data (fst (run_payloads
      [(scan_env NoFault 10, ''hello world''), (scan_env NoFault 11, ''other''),
       (scan_env NoFault 12, ''hello world'')] (default_scanner, fresh_world))))"
proof -
  have a: "last_decoded_data (fst (run_payloads
      [(scan_env NoFault 10, ''hello world''), (scan_env NoFault 11, ''other''),
       (scan_env NoFault 12, ''hello world'')] (initial_scanner False 2 5.0 0, fresh_world)))
     = Some ''other''"
    by (simp add: run_defs)
  from a last_seen_in_history [of
      "[(scan_env NoFault 10, ''hello world''), (scan_env NoFault 11, ''other''),
        (scan_env NoFault 12, ''hello world'')]" False 2 "5.0" 0 fresh_world "[]"]
  show ?thesis unfolding default_scanner_def by blast
qed

text \<open>
  Claim C9. The list \<^verbatim>\<open>decoded_data\<close> never holds a payload twice in a state reached from
  the initial one. A call either leaves the list as it is or appends the payload, and
  appends it only when it is not an element; nothing is ever removed.
\<close>

theorem history_distinct:
  "distinct (decoded_data (fst (run_payloads eps (initial_scanner gui skip interval t0, w)))) \<and>
   distinct (decoded_data (fst (fst (run_ticks ts (initial_scanner gui skip interval t0, w))))) \<and>
   (decoded_data (fst (snd (handle_qr_data e p (s, w')))) = decoded_data s \<or>
    p \<notin> set (decoded_data s) \<and>
    decoded_data (fst (snd (handle_qr_data e p (s, w')))) = decoded_data s @ [p])"
proof -
  let ?Q = "\<lambda>l d. distinct d"
  let ?sw = "(initial_scanner gui skip interval t0, w)"
  have start: "?Q (last_decoded_data (fst ?sw)) (decoded_data (fst ?sw))"
    by (simp add: initial_scanner_def)
  have step: "\<And>e q s w. ?Q (last_decoded_data s) (decoded_data s) \<Longrightarrow>
      ?Q (last_decoded_data (fst (accept_payload e q (s, w))))
         (decoded_data (fst (accept_payload e q (s, w))))"
    by (rule accept_keeps_distinct)
  have "decoded_data (fst (snd (handle_qr_data e p (s, w')))) = decoded_data s \<or>
    p \<notin> set (decoded_data s) \<and>
    decoded_data (fst (snd (handle_qr_data e p (s, w')))) = decoded_data s @ [p]"
    by (simp add: handle_qr_data_def Let_def)
  with run_payloads_dedup [of ?Q, OF step start, of eps]
       run_ticks_dedup [of ?Q, OF step start, of ts]
  show ?thesis by blast
qed

theorem history_distinct_witness:
  "decoded_data (fst (run_payloads
      [(scan_env NoFault 10, ''hello world''), (scan_env NoFault 11, ''other''),
       (scan_env NoFault 12, ''hello world'')] (default_scanner, fresh_world)))
     = [''hello world'', ''other''] \<and>
   distinct (decoded_data (fst (run_payloads
      [(scan_env NoFault 10, ''hello world''), (scan_env NoFault 11, ''other''),
       (scan_env NoFault 12, ''hello world'')] (default_scanner, fresh_world))))"
proof -
  have a: "decoded_data (fst (run_payloads
      [(scan_env NoFault 10, ''hello world''), (scan_env NoFault 11, ''other''),
       (scan_env NoFault 12, ''hello world'')] (initial_scanner False 2 5.0 0, fresh_world)))
     = [''hello world'', ''other'']"
    by (simp add: run_defs)
  from a history_distinct [of
      "[(scan_env NoFault 10, ''hello world''), (scan_env NoFault 11, ''other''),
        (scan_env NoFault 12, ''hello world'')]" False 2 "5.0" 0 fresh_world "[]"]
  show ?thesis unfolding default_scanner_def by blast
qed


text \<open>
  Claim C10. A call of \<^verbatim>\<open>handle_qr_data\<close> that starts no browser thread leaves
  \<^verbatim>\<open>last_open_time\<close> as it was. That is the case when the payload is not new, when it
  is new and not a URL, and when it is a new URL within the interval.
\<close>

theorem last_open_time_frame:
  "(\<not> dispatched e p (s, w) \<longrightarrow>
      last_open_time (fst (snd (handle_qr_data e p (s, w)))) = last_open_time s) \<and>
   (\<not> accepted_as_new e p (s, w) \<longrightarrow>
      \<not> dispatched e p (s, w) \<and>
      last_open_time (fst (snd (handle_qr_data e p (s, w)))) = last_open_time s) \<and>
   (accepted_as_new e p (s, w) \<and> \<not> is_url p \<longrightarrow>
      \<not> dispatched e p (s, w) \<and>
      last_open_time (fst (snd (handle_qr_data e p (s, w)))) = last_open_time s) \<and>
   (accepted_as_new e p (s, w) \<and> is_url p \<and> now e - last_open_time s \<le> open_interval s \<longrightarrow>
      \<not> dispatched e p (s, w) \<and>
      last_open_time (fst (snd (handle_qr_data e p (s, w)))) = last_open_time s)"
  by (simp add: handle_last_open_time) (auto simp add: dispatched_iff accepted_as_new_iff)

text \<open>
  After a dispatch at time 10, a second URL at time 12 is new and suppressed, and a
  payload that is no URL is new and dispatches nothing: \<^verbatim>\<open>last_open_time\<close> stays 10.
\<close>

theorem last_open_time_frame_witness:
  "last_open_time (fst (accept_payload (scan_env NoFault 10) ''https://example.com''
      (default_scanner, fresh_world))) = 10 \<and>
   accepted_as_new (scan_env NoFault 12) ''https://example.org''
     (accept_payload (scan_env NoFault 10) ''https://example.com''
        (default_scanner, fresh_world)) \<and>
   is_url ''https://example.org'' \<and>
   \<not> dispatched (scan_env NoFault 12) ''https://example.org''
     (accept_payload (scan_env NoFault 10) ''https://example.com''
        (default_scanner, fresh_world)) \<and>
   last_open_time (fst (snd (handle_qr_data (scan_env NoFault 12) ''https://example.org''
     (accept_payload (scan_env NoFault 10) ''https://example.com''
        (default_scanner, fresh_world))))) = 10 \<and>
   \<not> is_url ''hello world'' \<and>
   last_open_time (fst (snd (handle_qr_data (scan_env NoFault 100) ''hello world''
     (accept_payload (scan_env NoFault 10) ''https://example.com''
        (default_scanner, fresh_world))))) = 10"
proof -
  obtain s1 w1 where sw1:
    "accept_payload (scan_env NoFault 10) ''https://example.com'' (default_scanner, fresh_world)
       = (s1, w1)"
    by (cases "accept_payload (scan_env NoFault 10) ''https://example.com''
                 (default_scanner, fresh_world)")
  have t: "last_open_time s1 = 10" and i: "open_interval s1 = 5"
    using sw1 [symmetric] by (simp_all add: run_defs)
  have a: "accepted_as_new (scan_env NoFault 12) ''https://example.org'' (s1, w1)"
    and b: "accepted_as_new (scan_env NoFault 100) ''hello world'' (s1, w1)"
    unfolding sw1 [symmetric] by (simp_all add: run_defs)
  have u: "is_url ''https://example.org''" and n: "\<not> is_url ''hello world''"
    by (simp_all add: is_url_def)
  have c: "now (scan_env NoFault 12) - last_open_time s1 \<le> open_interval s1"
    using t i by (simp add: scan_env_def)
  from last_open_time_frame [of "scan_env NoFault 12" "''https://example.org''" s1 w1]
       last_open_time_frame [of "scan_env NoFault 100" "''hello world''" s1 w1]
       a b u n c t
  show ?thesis unfolding sw1 by simp
qed

lemma run_payloads_open_interval:
  "open_interval (fst (run_payloads eps sw)) = open_interval (fst sw)"
  by (induction eps arbitrary: sw) (simp_all add: accept_config)

lemma accept_last_open_time_dispatched:
  "last_open_time (fst (accept_payload e p (s, w))) =
     (if dispatched e p (s, w) then now e else last_open_time s)"
  by (simp add: accept_last_open_time dispatched_iff)

lemma dispatch_times_later:
  "0 \<le> open_interval (fst sw) \<Longrightarrow> t \<in> set (dispatch_times eps sw) \<Longrightarrow>
     last_open_time (fst sw) + open_interval (fst sw) < t"
proof (induction eps arbitrary: sw)
  case Nil
  then show ?case by simp
next
  case (Cons ep eps)
  obtain s w where sw: "sw = (s, w)" by (cases sw)
  let ?sw' = "accept_payload (fst ep) (snd ep) sw"
  have iv: "open_interval (fst ?sw') = open_interval (fst sw)"
    by (simp add: accept_config)
  show ?case
  proof (cases "dispatched (fst ep) (snd ep) sw")
    case True
    then have gap: "last_open_time s + open_interval s < now (fst ep)"
      using sw by (simp add: dispatched_iff)
    have lt: "last_open_time (fst ?sw') = now (fst ep)"
      using True sw by (simp add: accept_last_open_time_dispatched)
    from Cons.prems(2) True
    consider "t = now (fst ep)" | "t \<in> set (dispatch_times eps ?sw')"
      by auto
    then show ?thesis
    proof cases
      case 1
      with gap sw show ?thesis by simp
    next
      case 2
      from Cons.IH [OF _ 2] Cons.prems(1) iv lt
      have "now (fst ep) + open_interval (fst sw) < t" by simp
      with gap Cons.prems(1) sw show ?thesis by simp
    qed
  next
    case False
    then have lt: "last_open_time (fst ?sw') = last_open_time (fst sw)"
      using sw by (simp add: accept_last_open_time_dispatched)
    from Cons.prems(2) False have "t \<in> set (dispatch_times eps ?sw')" by simp
    from Cons.IH [OF _ this] Cons.prems(1) iv lt show ?thesis by simp
  qed
qed

lemma one_dispatch_per_window:
  assumes "t1 < t2" and "t2 - t1 \<le> open_interval (fst sw)"
  shows "length (filter (\<lambda>t. t1 \<le> t \<and> t \<le> t2) (dispatch_times eps sw)) \<le> 1"
  using assms(2)
proof (induction eps arbitrary: sw)
  case Nil
  then show ?case by simp
next
  case (Cons ep eps)
  let ?sw' = "accept_payload (fst ep) (snd ep) sw"
  have iv: "open_interval (fst ?sw') = open_interval (fst sw)"
    by (simp add: accept_config)
  from Cons.prems assms(1) have pos: "0 \<le> open_interval (fst sw)" by simp
  have IH: "length (filter (\<lambda>t. t1 \<le> t \<and> t \<le> t2) (dispatch_times eps ?sw')) \<le> 1"
    using Cons.IH [of ?sw'] Cons.prems iv by simp
  show ?case
  proof (cases "dispatched (fst ep) (snd ep) sw \<and> t1 \<le> now (fst ep) \<and> now (fst ep) \<le> t2")
    case True
    obtain s w where sw: "sw = (s, w)" by (cases sw)
    have lt: "last_open_time (fst ?sw') = now (fst ep)"
      using True sw by (simp add: accept_last_open_time_dispatched)
    have "\<not> (t1 \<le> t \<and> t \<le> t2)" if "t \<in> set (dispatch_times eps ?sw')" for t
    proof -
      from dispatch_times_later [OF _ that] pos iv lt
      have "now (fst ep) + open_interval (fst sw) < t" by simp
      with True Cons.prems show ?thesis by simp
    qed
    then have "filter (\<lambda>t. t1 \<le> t \<and> t \<le> t2) (dispatch_times eps ?sw') = []"
      by (simp add: filter_empty_conv)
    with True show ?thesis by simp
  next
    case False
    with IH show ?thesis by auto
  qed
qed


lemma handle_suppressed_log:
  "accepted_as_new e p (s, w) \<Longrightarrow> is_url p \<Longrightarrow> \<not> dispatched e p (s, w) \<Longrightarrow>
     last (logged (snd (snd (handle_qr_data e p (s, w))))) = LogTooFrequent"
  by (simp add: accepted_as_new_iff dispatched_iff) (simp add: handle_qr_data_def Let_def)

text \<open>
  Claim C3. For a new payload that is a URL, handled at the instant \<open>now\<close>, a browser
  thread is started exactly when \<open>now - last_open_time > open_interval\<close>; when it is
  started \<^verbatim>\<open>last_open_time\<close> becomes \<open>now\<close>, and when it is not, \<^verbatim>\<open>last_open_time\<close> is
  unchanged and the suppression is logged. Hence, in any run of handled payloads from any
  state, at most one dispatch has its instant in a window \<open>[t1, t2]\<close> with \<open>t1 < t2\<close> and
  \<open>t2 - t1 \<le> open_interval\<close>. Timestamps are real numbers here.
\<close>

theorem side_effect_limiter:
  "(accepted_as_new e p (s, w) \<and> is_url p \<longrightarrow>
      (dispatched e p (s, w) \<longleftrightarrow> now e - last_open_time s > open_interval s) \<and>
      (dispatched e p (s, w) \<longrightarrow>
         last_open_time (fst (snd (handle_qr_data e p (s, w)))) = now e \<and>
         browser_threads (snd (snd (handle_qr_data e p (s, w)))) = browser_threads w @ [p]) \<and>
      (\<not> dispatched e p (s, w) \<longrightarrow>
         last_open_time (fst (snd (handle_qr_data e p (s, w)))) = last_open_time s \<and>
         browser_threads (snd (snd (handle_qr_data e p (s, w)))) = browser_threads w \<and>
         last (logged (snd (snd (handle_qr_data e p (s, w))))) = LogTooFrequent)) \<and>
   (t1 < t2 \<and> t2 - t1 \<le> open_interval s \<longrightarrow>
      length (filter (\<lambda>t. t1 \<le> t \<and> t \<le> t2) (dispatch_times eps (s, w))) \<le> 1)"
proof -
  have one: "dispatched e p (s, w) \<longleftrightarrow> now e - last_open_time s > open_interval s"
    if "accepted_as_new e p (s, w) \<and> is_url p"
    using that by (simp add: dispatched_iff accepted_as_new_iff)
  have two: "last (logged (snd (snd (handle_qr_data e p (s, w))))) = LogTooFrequent"
    if "accepted_as_new e p (s, w) \<and> is_url p" and "\<not> dispatched e p (s, w)"
    using that handle_suppressed_log by blast
  have three: "length (filter (\<lambda>t. t1 \<le> t \<and> t \<le> t2) (dispatch_times eps (s, w))) \<le> 1"
    if "t1 < t2 \<and> t2 - t1 \<le> open_interval s"
    using that one_dispatch_per_window [of t1 t2 "(s, w)" eps] by simp
  from one two three show ?thesis
    by (simp add: handle_last_open_time handle_browser_threads)
qed

text \<open>
  With the default interval of 5 seconds: a URL at time 10 is dispatched, a second one
  at 12 is suppressed, a third one at 16 is dispatched, and the window from 10 to 15
  holds one dispatch.
\<close>

theorem side_effect_limiter_witness:
  "accepted_as_new (scan_env NoFault 10) ''https://example.com'' (default_scanner, fresh_world) \<and>
   is_url ''https://example.com'' \<and>
   dispatched (scan_env NoFault 10) ''https://example.com'' (default_scanner, fresh_world) \<and>
   last_open_time (fst (snd (handle_qr_data (scan_env NoFault 10) ''https://example.com''
      (default_scanner, fresh_world)))) = 10 \<and>
   (10 :: real) < 15 \<and> 15 - 10 \<le> open_interval default_scanner \<and>
   dispatch_times
     [(scan_env NoFault 10, ''https://example.com''), (scan_env NoFault 12, ''http://b.example''),
      (scan_env NoFault 16, ''http://c.example'')] (default_scanner, fresh_world) = [10, 16] \<and>
   length (filter (\<lambda>t. 10 \<le> t \<and> t \<le> 15) (dispatch_times
     [(scan_env NoFault 10, ''https://example.com''), (scan_env NoFault 12, ''http://b.example''),
      (scan_env NoFault 16, ''http://c.example'')] (default_scanner, fresh_world))) \<le> 1"
proof -
  have a: "accepted_as_new (scan_env NoFault 10) ''https://example.com''
             (default_scanner, fresh_world) \<and> is_url ''https://example.com''"
    by (simp add: run_defs)
  have b: "now (scan_env NoFault 10) - last_open_time default_scanner
             > open_interval default_scanner"
    by (simp add: run_defs)
  have c: "(10 :: real) < 15 \<and> 15 - 10 \<le> open_interval default_scanner"
    by (simp add: run_defs)
  have d: "dispatch_times
     [(scan_env NoFault 10, ''https://example.com''), (scan_env NoFault 12, ''http://b.example''),
      (scan_env NoFault 16, ''http://c.example'')] (default_scanner, fresh_world) = [10, 16]"
    by (simp add: run_defs)
  have e: "now (scan_env NoFault 10) = 10"
    by (simp add: scan_env_def)
  from a b c d e
    side_effect_limiter [of "scan_env NoFault 10" "''https://example.com''" default_scanner
      fresh_world 10 15
      "[(scan_env NoFault 10, ''https://example.com''), (scan_env NoFault 12, ''http://b.example''),
        (scan_env NoFault 16, ''http://c.example'')]"]
  show ?thesis by simp
qed


lemma div_step:
  fixes c m :: int
  assumes "0 < m"
  shows "(c + 1) div m = c div m + (if (c + 1) mod m = 0 then 1 else 0)"
proof -
  have c: "c = m * (c div m) + c mod m" by simp
  have r: "0 \<le> c mod m" "c mod m < m" using assms by simp_all
  show ?thesis
  proof (cases "c mod m = m - 1")
    case True
    then have "c + 1 = m * (c div m + 1)"
      using c by (metis add.commute add_diff_cancel_left' diff_add_cancel distrib_left mult.right_neutral add.assoc)
    then show ?thesis
      using assms by (metis mod_mult_self1_is_0 nonzero_mult_div_cancel_left less_irrefl)
  next
    case False
    with r have lt: "c mod m + 1 < m" by simp
    have eq: "c + 1 = m * (c div m) + (c mod m + 1)" using c by simp
    have d: "(c + 1) div m = c div m"
      using lt r eq
      by (metis add.commute add_nonneg_nonneg div_mult_self2 div_pos_pos_trivial add_0 assms less_irrefl zero_le_one)
    have e: "(c + 1) mod m = c mod m + 1"
      using lt r eq
      by (metis add_nonneg_nonneg mod_mult_self4 mod_pos_pos_trivial zero_le_one)
    from d e r show ?thesis by simp
  qed
qed

lemma process_region_config:
  "skip_frames (fst (process_region r sw)) = skip_frames (fst sw)"
  "frame_counter (fst (process_region r sw)) = frame_counter (fst sw)"
  "frames_read (snd (process_region r sw)) = frames_read (snd sw)"
  by (cases "region_data r"; simp add: process_region_def accept_config)+

lemma process_regions_config:
  "skip_frames (fst (process_regions rs sw)) = skip_frames (fst sw) \<and>
   frame_counter (fst (process_regions rs sw)) = frame_counter (fst sw) \<and>
   frames_read (snd (process_regions rs sw)) = frames_read (snd sw)"
  by (induction rs arbitrary: sw) (simp_all add: process_region_config)

lemma update_fps_config:
  "skip_frames (update_fps t s) = skip_frames s"
  "frame_counter (update_fps t s) = frame_counter s"
  by (simp_all add: update_fps_def Let_def)

lemma handle_key_frames_read:
  "handle_key t s w = Inr w' \<Longrightarrow> frames_read w' = frames_read w"
  by (auto simp add: handle_key_def Let_def split: if_splits)

lemma handle_key_raises:
  "handle_key t s w = Inl err \<Longrightarrow> err = OSError"
  by (auto simp add: handle_key_def Let_def split: if_splits)

lemma process_frame_throttle:
  assumes "0 \<le> skip_frames (fst sw)"
  shows "skip_frames (fst (tick_end (process_frame t sw))) = skip_frames (fst sw) \<and>
         frame_counter (fst (tick_end (process_frame t sw))) =
           (frame_counter (fst sw) + 1) mod (skip_frames (fst sw) + 1) \<and>
         frames_read (snd (tick_end (process_frame t sw))) = frames_read (snd sw) +
           (if (frame_counter (fst sw) + 1) mod (skip_frames (fst sw) + 1) = 0 then 1 else 0) \<and>
         (\<forall>st. process_frame t sw \<noteq> Inl (ZeroDivisionError, st))"
proof -
  let ?w1 = "(snd sw)\<lparr>frames_read := frames_read (snd sw) + 1\<rparr>"
  from assms obtain s1 where adv: "advance_counter (fst sw) = Inr s1"
    and sk: "skip_frames s1 = skip_frames (fst sw)"
    and fc: "frame_counter s1 = (frame_counter (fst sw) + 1) mod (skip_frames (fst sw) + 1)"
    by (simp add: advance_counter_def)
  show ?thesis
  proof (cases "frame_counter s1 = 0")
    case False
    with adv have "process_frame t sw = Inr (s1, snd sw)"
      by (simp add: process_frame_def)
    with False sk fc show ?thesis by (simp add: tick_end_def)
  next
    case True
    show ?thesis
    proof (cases "capture t")
      case None
      with adv True
      have "process_frame t sw = Inr (s1, ?w1\<lparr>logged := logged ?w1 @ [LogFrameReadFailed]\<rparr>)"
        by (simp add: process_frame_def Let_def)
      with True sk fc show ?thesis by (simp add: tick_end_def)
    next
      case (Some rs)
      define sw2 where "sw2 = process_regions rs (update_fps t s1, ?w1)"
      from process_regions_config [of rs "(update_fps t s1, ?w1)"]
      have cfg: "skip_frames (fst sw2) = skip_frames (fst sw)"
        "frame_counter (fst sw2) = frame_counter s1"
        "frames_read (snd sw2) = frames_read (snd sw) + 1"
        by (simp_all add: update_fps_config sk sw2_def)
      show ?thesis
      proof (cases "handle_key t (fst sw2) (snd sw2)")
        case (Inl err)
        from handle_key_raises [OF Inl] have "err = OSError" .
        with adv True Some Inl [unfolded sw2_def]
        have "process_frame t sw = Inl (OSError, sw2)"
          by (simp add: process_frame_def Let_def sw2_def)
        with cfg True fc show ?thesis by (simp add: tick_end_def)
      next
        case (Inr w3)
        from handle_key_frames_read [OF Inr] cfg
        have "frames_read w3 = frames_read (snd sw) + 1" by simp
        moreover from adv True Some Inr [unfolded sw2_def]
        have "process_frame t sw = Inr (fst sw2, w3)"
          by (simp add: process_frame_def Let_def sw2_def)
        ultimately show ?thesis using cfg True fc by (simp add: tick_end_def)
      qed
    qed
  qed
qed

lemma run_ticks_append:
  "run_ticks (ts @ us) sw =
     (case snd (run_ticks ts sw) of
        None \<Rightarrow> run_ticks us (fst (run_ticks ts sw))
      | Some err \<Rightarrow> run_ticks ts sw)"
proof (induction ts arbitrary: sw)
  case Nil
  then show ?case by simp
next
  case (Cons t ts)
  then show ?case
    by (cases "process_frame t sw") (simp_all split: option.splits)
qed

lemma run_ticks_single:
  "fst (run_ticks [t] sw) = tick_end (process_frame t sw)"
  by (cases "process_frame t sw") (simp_all add: tick_end_def)

lemma run_ticks_prefix:
  "snd (run_ticks (ts @ us) sw) = None \<Longrightarrow> snd (run_ticks ts sw) = None"
  by (cases "snd (run_ticks ts sw)") (simp_all add: run_ticks_append)

lemma run_ticks_butlast:
  "snd (run_ticks ts sw) = None \<Longrightarrow> snd (run_ticks (butlast ts) sw) = None"
proof (cases "ts = []")
  case True
  then show ?thesis by simp
next
  case False
  assume "snd (run_ticks ts sw) = None"
  with False have "snd (run_ticks (butlast ts @ [last ts]) sw) = None" by simp
  then show ?thesis by (rule run_ticks_prefix)
qed

lemma run_ticks_throttle:
  assumes "0 \<le> skip_frames (fst sw)"
    and "snd (run_ticks (butlast ts) sw) = None"
  shows "skip_frames (fst (fst (run_ticks ts sw))) = skip_frames (fst sw) \<and>
         frame_counter (fst (fst (run_ticks ts sw))) =
           (if ts = [] then frame_counter (fst sw)
            else (frame_counter (fst sw) + int (length ts)) mod (skip_frames (fst sw) + 1)) \<and>
         int (frames_read (snd (fst (run_ticks ts sw)))) =
           int (frames_read (snd sw)) +
             ((frame_counter (fst sw) + int (length ts)) div (skip_frames (fst sw) + 1)
              - frame_counter (fst sw) div (skip_frames (fst sw) + 1))"
  using assms(2)
proof (induction ts rule: rev_induct)
  case Nil
  then show ?case by simp
next
  case (snoc t ts)
  define m where "m = skip_frames (fst sw) + 1"
  define c where "c = frame_counter (fst sw)"
  define k where "k = int (length ts)"
  define mid where "mid = fst (run_ticks ts sw)"
  from assms(1) have m: "0 < m" by (simp add: m_def)
  from snoc.prems have quiet: "snd (run_ticks ts sw) = None" by simp
  from snoc.IH [OF run_ticks_butlast [OF quiet]]
  have ih1: "skip_frames (fst mid) = skip_frames (fst sw)"
    and ih2: "frame_counter (fst mid) = (if ts = [] then c else (c + k) mod m)"
    and ih3: "int (frames_read (snd mid)) = int (frames_read (snd sw)) + ((c + k) div m - c div m)"
    unfolding mid_def c_def k_def m_def by simp_all
  from quiet have "run_ticks (ts @ [t]) sw = run_ticks [t] mid"
    by (simp add: run_ticks_append mid_def)
  then have fin: "fst (run_ticks (ts @ [t]) sw) = tick_end (process_frame t mid)"
    by (simp only: run_ticks_single)
  from ih1 assms(1) have "0 \<le> skip_frames (fst mid)" by simp
  from process_frame_throttle [OF this, of t]
  have st1: "skip_frames (fst (tick_end (process_frame t mid))) = skip_frames (fst sw)"
    and st2: "frame_counter (fst (tick_end (process_frame t mid))) =
                (frame_counter (fst mid) + 1) mod m"
    and st3: "frames_read (snd (tick_end (process_frame t mid))) = frames_read (snd mid) +
                (if (frame_counter (fst mid) + 1) mod m = 0 then 1 else 0)"
    unfolding ih1 m_def by simp_all
  have next_counter: "(frame_counter (fst mid) + 1) mod m = (c + k + 1) mod m"
  proof (cases "ts = []")
    case True
    then have "k = 0" by (simp add: k_def)
    with True ih2 show ?thesis by simp
  next
    case False
    with ih2 have "frame_counter (fst mid) = (c + k) mod m" by simp
    then show ?thesis by (simp only: mod_add_left_eq)
  qed
  have A: "(c + k + 1) div m = (c + k) div m + (if (c + k + 1) mod m = 0 then 1 else 0)"
    by (rule div_step [OF m])
  have len: "c + int (length (ts @ [t])) = c + k + 1"
    by (simp add: k_def)
  have reads: "int (frames_read (snd (tick_end (process_frame t mid)))) =
      int (frames_read (snd sw)) + ((c + k + 1) div m - c div m)"
    using st3 ih3 A unfolding next_counter by (cases "(c + k + 1) mod m = 0") simp_all
  have "skip_frames (fst (fst (run_ticks (ts @ [t]) sw))) = skip_frames (fst sw)"
    and "frame_counter (fst (fst (run_ticks (ts @ [t]) sw))) =
           (c + int (length (ts @ [t]))) mod m"
    and "int (frames_read (snd (fst (run_ticks (ts @ [t]) sw)))) =
           int (frames_read (snd sw)) + ((c + int (length (ts @ [t]))) div m - c div m)"
    unfolding fin len using st1 st2 next_counter reads by simp_all
  then show ?case
    unfolding c_def m_def by simp
qed

text \<open>
  Claim C4. For \<^verbatim>\<open>skip_frames\<close> \<open>= n \<ge> 0\<close>, every tick sets \<^verbatim>\<open>frame_counter\<close> to
  \<open>(frame_counter + 1) mod (n + 1)\<close> and requests a frame from the camera exactly when
  the new counter is 0, whether the tick then returns or raises; the throttle itself
  raises nothing. Of any \<open>n + 1\<close> consecutive ticks that take place (no tick before the
  last of them raises, which would end the run), after any earlier ticks and whatever the
  clock, the camera, the decoder and the keyboard deliver, exactly one requests a frame.
  With \<open>n = 0\<close> every tick requests a frame.
\<close>

theorem frame_throttle:
  assumes "0 \<le> skip_frames s"
  shows
   "frame_counter (fst (tick_end (process_frame t (s, w)))) =
      (frame_counter s + 1) mod (skip_frames s + 1) \<and>
    frames_read (snd (tick_end (process_frame t (s, w)))) =
      frames_read w +
        (if frame_counter (fst (tick_end (process_frame t (s, w)))) = 0 then 1 else 0) \<and>
    (\<forall>st. process_frame t (s, w) \<noteq> Inl (ZeroDivisionError, st)) \<and>
    (length ts = nat (skip_frames s + 1) \<and>
     snd (run_ticks (pre @ butlast ts) (s, w)) = None \<longrightarrow>
        frames_read (snd (fst (run_ticks (pre @ ts) (s, w)))) =
          frames_read (snd (fst (run_ticks pre (s, w)))) + 1) \<and>
    (skip_frames s = 0 \<longrightarrow>
        frames_read (snd (tick_end (process_frame t (s, w)))) = frames_read w + 1)"
proof -
  from process_frame_throttle [of "(s, w)" t] assms
  have fc: "frame_counter (fst (tick_end (process_frame t (s, w)))) =
              (frame_counter s + 1) mod (skip_frames s + 1)"
    and fr: "frames_read (snd (tick_end (process_frame t (s, w)))) = frames_read w +
               (if (frame_counter s + 1) mod (skip_frames s + 1) = 0 then 1 else 0)"
    and zd: "\<forall>st. process_frame t (s, w) \<noteq> Inl (ZeroDivisionError, st)"
    by simp_all
  have three: "frames_read (snd (tick_end (process_frame t (s, w)))) = frames_read w + 1"
    if "skip_frames s = 0"
    using fr that by simp
  have two: "frames_read (snd (fst (run_ticks (pre @ ts) (s, w)))) =
          frames_read (snd (fst (run_ticks pre (s, w)))) + 1"
    if len: "length ts = nat (skip_frames s + 1)"
      and quiet: "snd (run_ticks (pre @ butlast ts) (s, w)) = None"
  proof -
    define m where "m = skip_frames s + 1"
    define c where "c = frame_counter s"
    define j where "j = int (length pre)"
    from assms have m: "0 < m" by (simp add: m_def)
    from len assms have k: "int (length ts) = m" by (simp add: m_def)
    with m have ne: "ts \<noteq> []" by auto
    then have bl: "butlast (pre @ ts) = pre @ butlast ts"
      by (simp add: butlast_append)
    from run_ticks_prefix [OF quiet] have "snd (run_ticks pre (s, w)) = None" .
    from run_ticks_throttle [of "(s, w)" pre, OF _ run_ticks_butlast [OF this]] assms
    have before: "int (frames_read (snd (fst (run_ticks pre (s, w))))) =
                    int (frames_read w) + ((c + j) div m - c div m)"
      unfolding c_def j_def m_def by simp
    from run_ticks_throttle [of "(s, w)" "pre @ ts"] quiet bl assms
    have "int (frames_read (snd (fst (run_ticks (pre @ ts) (s, w))))) =
            int (frames_read w) + ((c + int (length (pre @ ts))) div m - c div m)"
      unfolding c_def m_def by simp
    moreover have "c + int (length (pre @ ts)) = (c + j) + m"
      using k by (simp add: j_def)
    ultimately have after: "int (frames_read (snd (fst (run_ticks (pre @ ts) (s, w))))) =
            int (frames_read w) + (((c + j) + m) div m - c div m)"
      by (simp only:)
    have "((c + j) + m) div m = (c + j) div m + 1"
      using m by simp
    with before after show ?thesis by linarith
  qed
  from fc fr zd two three show ?thesis by simp
qed

text \<open>
  With \<^verbatim>\<open>skip_frames\<close> \<open>= 2\<close> and the window shown: two ticks are skipped, the third
  reads a frame and, on the key \<^verbatim>\<open>s\<close> with a directory that cannot be created, raises.
  The three ticks took place and one frame was requested.
\<close>

theorem frame_throttle_witness:
  "0 \<le> skip_frames (default_scanner\<lparr>show_gui := True\<rparr>) \<and>
   length [tick (Some []), tick (Some []),
           (tick (Some []))\<lparr>wait_key := 115, mkdir_raises := True\<rparr>]
     = nat (skip_frames (default_scanner\<lparr>show_gui := True\<rparr>) + 1) \<and>
   snd (run_ticks ([] @ butlast [tick (Some []), tick (Some []),
           (tick (Some []))\<lparr>wait_key := 115, mkdir_raises := True\<rparr>])
      (default_scanner\<lparr>show_gui := True\<rparr>, fresh_world)) = None \<and>
   snd (run_ticks ([] @ [tick (Some []), tick (Some []),
           (tick (Some []))\<lparr>wait_key := 115, mkdir_raises := True\<rparr>])
      (default_scanner\<lparr>show_gui := True\<rparr>, fresh_world)) = Some OSError \<and>
   frames_read (snd (fst (run_ticks ([] @ [tick (Some []), tick (Some []),
           (tick (Some []))\<lparr>wait_key := 115, mkdir_raises := True\<rparr>])
      (default_scanner\<lparr>show_gui := True\<rparr>, fresh_world)))) = 1"
proof -
  have a: "0 \<le> skip_frames (default_scanner\<lparr>show_gui := True\<rparr>)"
    by (simp add: default_scanner_def initial_scanner_def)
  have b: "length [tick (Some []), tick (Some []),
           (tick (Some []))\<lparr>wait_key := 115, mkdir_raises := True\<rparr>]
     = nat (skip_frames (default_scanner\<lparr>show_gui := True\<rparr>) + 1)"
    by (simp add: default_scanner_def initial_scanner_def)
  have c: "snd (run_ticks ([] @ butlast [tick (Some []), tick (Some []),
           (tick (Some []))\<lparr>wait_key := 115, mkdir_raises := True\<rparr>])
      (default_scanner\<lparr>show_gui := True\<rparr>, fresh_world)) = None"
    by (simp add: process_frame_def advance_counter_def default_scanner_def
        initial_scanner_def fresh_world_def tick_def)
  have d: "snd (run_ticks ([] @ [tick (Some []), tick (Some []),
           (tick (Some []))\<lparr>wait_key := 115, mkdir_raises := True\<rparr>])
      (default_scanner\<lparr>show_gui := True\<rparr>, fresh_world)) = Some OSError"
    by (simp add: process_frame_def advance_counter_def handle_key_def update_fps_def
        default_scanner_def initial_scanner_def fresh_world_def tick_def Let_def)
  have e: "frames_read (snd (fst (run_ticks [] (default_scanner\<lparr>show_gui := True\<rparr>,
             fresh_world)))) = 0"
    by (simp add: fresh_world_def)
  from frame_throttle [OF a, where ts = "[tick (Some []), tick (Some []),
           (tick (Some []))\<lparr>wait_key := 115, mkdir_raises := True\<rparr>]"
         and pre = "[]" and w = fresh_world] b c e
  have "frames_read (snd (fst (run_ticks ([] @ [tick (Some []), tick (Some []),
           (tick (Some []))\<lparr>wait_key := 115, mkdir_raises := True\<rparr>])
      (default_scanner\<lparr>show_gui := True\<rparr>, fresh_world)))) = 1"
    by simp
  with a b c d show ?thesis by blast
qed

text \<open>
  Claim C5, as the code has it. On a tick that passes the throttle and whose camera read
  fails, the failure is logged and the tick returns. The counter of the throttle has
  been advanced to 0 by then; every other field of the node, the history file and the
  browser threads are as they were when the tick started.
\<close>

theorem frame_read_failure_frame:
  assumes "skip_frames s + 1 \<noteq> 0"
    and "(frame_counter s + 1) mod (skip_frames s + 1) = 0"
    and "capture t = None"
  shows "process_frame t (s, w) =
           Inr (s\<lparr>frame_counter := 0\<rparr>,
                w\<lparr>frames_read := frames_read w + 1,
                  logged := logged w @ [LogFrameReadFailed]\<rparr>)"
  using assms by (simp add: process_frame_def advance_counter_def Let_def)

theorem frame_read_failure_frame_witness:
  "skip_frames (default_scanner\<lparr>frame_counter := 2\<rparr>) + 1 \<noteq> 0 \<and>
   (frame_counter (default_scanner\<lparr>frame_counter := 2\<rparr>) + 1)
      mod (skip_frames (default_scanner\<lparr>frame_counter := 2\<rparr>) + 1) = 0 \<and>
   capture (tick None) = None \<and>
   process_frame (tick None) (default_scanner\<lparr>frame_counter := 2\<rparr>, fresh_world) =
     Inr (default_scanner\<lparr>frame_counter := 0\<rparr>,
          fresh_world\<lparr>frames_read := 1, logged := [LogFrameReadFailed]\<rparr>)"
proof -
  have a: "skip_frames (default_scanner\<lparr>frame_counter := 2\<rparr>) + 1 \<noteq> 0"
    and b: "(frame_counter (default_scanner\<lparr>frame_counter := 2\<rparr>) + 1)
      mod (skip_frames (default_scanner\<lparr>frame_counter := 2\<rparr>) + 1) = 0"
    and c: "capture (tick None) = None"
    by (simp_all add: default_scanner_def initial_scanner_def tick_def)
  from frame_read_failure_frame [OF a b c, of fresh_world] a b c
  show ?thesis by (simp add: fresh_world_def)
qed

text \<open>
  The claim as written fails: with the default \<^verbatim>\<open>skip_frames\<close> \<open>= 2\<close>, two ticks take
  the counter from 0 to 2, and the third tick, whose read fails, leaves it at 0.
\<close>

theorem frame_read_failure_counterexample:
  "fst (run_ticks [tick (Some []), tick (Some [])] (default_scanner, fresh_world)) =
     (default_scanner\<lparr>frame_counter := 2\<rparr>, fresh_world) \<and>
   capture (tick None) = None \<and>
   process_frame (tick None) (default_scanner\<lparr>frame_counter := 2\<rparr>, fresh_world) =
     Inr (default_scanner\<lparr>frame_counter := 0\<rparr>,
          fresh_world\<lparr>frames_read := 1, logged := [LogFrameReadFailed]\<rparr>) \<and>
   frame_counter (default_scanner\<lparr>frame_counter := 0\<rparr>)
     \<noteq> frame_counter (default_scanner\<lparr>frame_counter := 2\<rparr>)"
  by (simp add: process_frame_def advance_counter_def Let_def default_scanner_def
      initial_scanner_def fresh_world_def tick_def)


lemma save_to_csv_ok:
  "\<not> snd (save_to_csv_try e d (csv_file w)) \<Longrightarrow>
     csv_file (save_to_csv e d w) =
       Some (case csv_file w of
               None \<Rightarrow> [header_row, [csv_stamp e, d]]
             | Some rows \<Rightarrow> rows @ [[csv_stamp e, d]]) \<and>
     logged (save_to_csv e d w) = logged w"
  by (cases "csv_file w")
     (auto simp add: save_to_csv_def save_to_csv_try_def Let_def split: if_splits)

lemma no_fault_ok:
  "csv_fault e = NoFault \<Longrightarrow> \<not> snd (save_to_csv_try e d f)"
  by (simp add: save_to_csv_try_def Let_def)

lemma appends_no_fault:
  assumes "\<forall>ed \<in> set eds. csv_fault (fst ed) = NoFault"
  shows "csv_file (foldl (\<lambda>w ed. save_to_csv (fst ed) (snd ed) w) w eds) =
           (if eds = [] then csv_file w
            else Some ((case csv_file w of None \<Rightarrow> [header_row] | Some rows \<Rightarrow> rows)
                       @ map (\<lambda>ed. [csv_stamp (fst ed), snd ed]) eds))"
  using assms
proof (induction eds arbitrary: w)
  case Nil
  then show ?case by simp
next
  case (Cons ed eds)
  from Cons.prems have "csv_fault (fst ed) = NoFault" by simp
  from save_to_csv_ok [OF no_fault_ok [OF this], of "snd ed" w]
  have first: "csv_file (save_to_csv (fst ed) (snd ed) w) =
      Some ((case csv_file w of None \<Rightarrow> [header_row] | Some rows \<Rightarrow> rows)
            @ [[csv_stamp (fst ed), snd ed]])"
    by (cases "csv_file w") simp_all
  from Cons.prems have "\<forall>ed \<in> set eds. csv_fault (fst ed) = NoFault" by simp
  from Cons.IH [OF this, of "save_to_csv (fst ed) (snd ed) w"] first
  show ?case by simp
qed

text \<open>
  Claim C6, as the code has it. An append that raises nothing writes the header row
  before its data row exactly when the file does not exist when the append starts, and
  writes one data row (time stamp, content) after the rows already in the file. So in a
  run that starts without the file and in which no append fails, the first append and
  no other writes the header: the file is the header row followed by one data row per
  append.
\<close>

theorem csv_append:
  "(\<not> snd (save_to_csv_try e d (csv_file w)) \<longrightarrow>
      csv_file (save_to_csv e d w) =
        Some (case csv_file w of
                None \<Rightarrow> [header_row, [csv_stamp e, d]]
              | Some rows \<Rightarrow> rows @ [[csv_stamp e, d]]) \<and>
      logged (save_to_csv e d w) = logged w) \<and>
   (csv_file w = None \<and> eds \<noteq> [] \<and> (\<forall>ed \<in> set eds. csv_fault (fst ed) = NoFault) \<longrightarrow>
      csv_file (foldl (\<lambda>w ed. save_to_csv (fst ed) (snd ed) w) w eds) =
        Some (header_row # map (\<lambda>ed. [csv_stamp (fst ed), snd ed]) eds))"
proof -
  have "csv_file (foldl (\<lambda>w ed. save_to_csv (fst ed) (snd ed) w) w eds) =
        Some (header_row # map (\<lambda>ed. [csv_stamp (fst ed), snd ed]) eds)"
    if "csv_file w = None \<and> eds \<noteq> [] \<and> (\<forall>ed \<in> set eds. csv_fault (fst ed) = NoFault)"
    using that appends_no_fault [of eds w] by simp
  with save_to_csv_ok [of e d w] show ?thesis by blast
qed

text \<open>
  Two appends to a missing file give the header and two rows; an append to a file that
  exists adds its row only.
\<close>

theorem csv_append_witness:
  "csv_file fresh_world = None \<and>
   csv_file (foldl (\<lambda>w ed. save_to_csv (fst ed) (snd ed) w) fresh_world
       [(scan_env NoFault 10, ''hello world''), (scan_env NoFault 11, ''other'')]) =
     Some [header_row, [''2024-05-01 12:00:00'', ''hello world''],
           [''2024-05-01 12:00:00'', ''other'']] \<and>
   \<not> snd (save_to_csv_try (scan_env HeaderWriteFails 12) ''third''
          (csv_file (fresh_world\<lparr>csv_file := Some [header_row]\<rparr>))) \<and>
   csv_file (save_to_csv (scan_env HeaderWriteFails 12) ''third''
       (fresh_world\<lparr>csv_file := Some [header_row]\<rparr>)) =
     Some [header_row, [''2024-05-01 12:00:00'', ''third'']]"
proof -
  have a: "csv_file fresh_world = None"
    by (simp add: fresh_world_def)
  have b: "\<forall>ed \<in> set [(scan_env NoFault 10, ''hello world''), (scan_env NoFault 11, ''other'')].
             csv_fault (fst ed) = NoFault"
    by (simp add: scan_env_def)
  have c: "\<not> snd (save_to_csv_try (scan_env HeaderWriteFails 12) ''third''
          (csv_file (fresh_world\<lparr>csv_file := Some [header_row]\<rparr>)))"
    by (simp add: save_to_csv_try_def scan_env_def Let_def)
  from csv_append [of "scan_env HeaderWriteFails 12" "''third''"
         "fresh_world\<lparr>csv_file := Some [header_row]\<rparr>"
         "[(scan_env NoFault 10, ''hello world''), (scan_env NoFault 11, ''other'')]"] c
  have one: "csv_file (save_to_csv (scan_env HeaderWriteFails 12) ''third''
       (fresh_world\<lparr>csv_file := Some [header_row]\<rparr>)) =
     Some [header_row, [''2024-05-01 12:00:00'', ''third'']]"
    by (simp add: scan_env_def)
  from csv_append [of "scan_env NoFault 10" "''hello world''" fresh_world
         "[(scan_env NoFault 10, ''hello world''), (scan_env NoFault 11, ''other'')]"] a b
  have two: "csv_file (foldl (\<lambda>w ed. save_to_csv (fst ed) (snd ed) w) fresh_world
       [(scan_env NoFault 10, ''hello world''), (scan_env NoFault 11, ''other'')]) =
     Some [header_row, [''2024-05-01 12:00:00'', ''hello world''],
           [''2024-05-01 12:00:00'', ''other'']]"
    by (simp add: scan_env_def)
  from a c one two show ?thesis by blast
qed

text \<open>
  The claim as written fails: when the file is there from an earlier run of the program,
  the first append of this run writes its data row and no header.
\<close>

theorem csv_append_counterexample:
  "decoded_data default_scanner = [] \<and>
   csv_file (snd (accept_payload (scan_env NoFault 10) ''hello world''
      (default_scanner,
       fresh_world\<lparr>csv_file := Some [header_row, [''2024-04-30 09:00:00'', ''old'']]\<rparr>))) =
     Some [header_row, [''2024-04-30 09:00:00'', ''old''],
           [''2024-05-01 12:00:00'', ''hello world'']] \<and>
   csv_file (snd (accept_payload (scan_env NoFault 10) ''hello world''
      (default_scanner,
       fresh_world\<lparr>csv_file := Some [header_row, [''2024-04-30 09:00:00'', ''old'']]\<rparr>))) \<noteq>
     Some [header_row, [''2024-04-30 09:00:00'', ''old''], header_row,
           [''2024-05-01 12:00:00'', ''hello world'']]"
  by (simp add: run_defs header_row_def)

text \<open>
  Claim C7. When the append of a new payload raises, \<^verbatim>\<open>handle_qr_data\<close> still returns
  the payload: the failure is logged and goes no further, and the data row is not in the
  file. The payload is in \<^verbatim>\<open>decoded_data\<close> all the same, and no later call, after any
  payloads and any ticks, accepts it as new.
\<close>

theorem csv_failure_keeps_seen:
  assumes "accepted_as_new e p (s, w)"
    and "snd (save_to_csv_try e p (csv_file w))"
  shows "fst (handle_qr_data e p (s, w)) = Some p \<and>
         LogCsvFailed \<in> set (logged (snd (accept_payload e p (s, w)))) \<and>
         (csv_file (snd (accept_payload e p (s, w))) = csv_file w \<or>
          csv_file w = None \<and>
          (csv_file (snd (accept_payload e p (s, w))) = Some [] \<or>
           csv_file (snd (accept_payload e p (s, w))) = Some [header_row])) \<and>
         p \<in> set (decoded_data (fst (accept_payload e p (s, w)))) \<and>
         \<not> accepted_as_new e' p (run_payloads eps (accept_payload e p (s, w))) \<and>
         \<not> accepted_as_new e' p (fst (run_ticks ts (accept_payload e p (s, w))))"
proof -
  from assms(1) have new: "Some p \<noteq> last_decoded_data s \<and> p \<notin> set (decoded_data s)"
    by (simp add: accepted_as_new_iff)
  then have ret: "fst (handle_qr_data e p (s, w)) = Some p"
    by (simp add: handle_result)
  from new assms(2) have lg: "LogCsvFailed \<in> set (logged (snd (accept_payload e p (s, w))))"
    by (simp add: accept_payload_def handle_qr_data_def Let_def save_to_csv_frame)
  from new have "csv_file (snd (accept_payload e p (s, w))) =
                   fst (save_to_csv_try e p (csv_file w))"
    by (simp add: accept_payload_def handle_qr_data_def Let_def save_to_csv_frame)
  with assms(2)
  have unwritten: "csv_file (snd (accept_payload e p (s, w))) = csv_file w \<or>
          csv_file w = None \<and>
          (csv_file (snd (accept_payload e p (s, w))) = Some [] \<or>
           csv_file (snd (accept_payload e p (s, w))) = Some [header_row])"
    by (cases "csv_file w") (auto simp add: save_to_csv_try_def Let_def split: if_splits)
  from new have mem: "p \<in> set (decoded_data (fst (accept_payload e p (s, w))))"
    by (simp add: accept_decoded_data)
  from seen_never_new [OF mem, of e' eps ts] ret lg unwritten mem show ?thesis by blast
qed

text \<open>
  Opening the file fails for \<open>hello world\<close>; another payload follows; \<open>hello world\<close> is
  then not accepted again although the file was never created.
\<close>

theorem csv_failure_keeps_seen_witness:
  "accepted_as_new (scan_env OpenFails 10) ''hello world'' (default_scanner, fresh_world) \<and>
   snd (save_to_csv_try (scan_env OpenFails 10) ''hello world'' (csv_file fresh_world)) \<and>
   csv_file (snd (accept_payload (scan_env OpenFails 10) ''hello world''
     (default_scanner, fresh_world))) = None \<and>
   LogCsvFailed \<in> set (logged (snd (accept_payload (scan_env OpenFails 10) ''hello world''
     (default_scanner, fresh_world)))) \<and>
   \<not> accepted_as_new (scan_env NoFault 12) ''hello world''
     (run_payloads [(scan_env NoFault 11, ''other'')]
       (accept_payload (scan_env OpenFails 10) ''hello world'' (default_scanner, fresh_world)))"
proof -
  have a: "accepted_as_new (scan_env OpenFails 10) ''hello world'' (default_scanner, fresh_world)"
    by (simp add: run_defs)
  have b: "snd (save_to_csv_try (scan_env OpenFails 10) ''hello world'' (csv_file fresh_world))"
    by (simp add: run_defs)
  have c: "csv_file (snd (accept_payload (scan_env OpenFails 10) ''hello world''
     (default_scanner, fresh_world))) = None"
    by (simp add: run_defs)
  from csv_failure_keeps_seen [OF a b, of "scan_env NoFault 12"
         "[(scan_env NoFault 11, ''other'')]" "[]"] a b c
  show ?thesis by blast
qed

end
